theory Spec2Isabelle
  imports Complex_Main
begin

section \<open>Configuration constants\<close>

text \<open>
  The module-level settings of \<^verbatim>\<open>make_protein_matching_toy.py\<close>. Python floats are
  modelled as real numbers throughout: rounding is not represented.
\<close>

definition SPHERE_DIAMETER :: real where "SPHERE_DIAMETER = 60"
definition WALL_THICKNESS :: real where "WALL_THICKNESS = 3"
definition PEG_LENGTH :: real where "PEG_LENGTH = 20"
definition CLEARANCE :: real where "CLEARANCE = 1 / 2"
definition OVERLAP :: real where "OVERLAP = 11"
definition BEAD_COUNT :: nat where "BEAD_COUNT = 4"
definition KEY_SHAPES :: "string list" where
  "KEY_SHAPES = [''cylinder'', ''triangle'', ''square'', ''hexagon'']"
definition KEYS_PER_BEAD :: int where "KEYS_PER_BEAD = int (length KEY_SHAPES)"

definition OUTER_R :: real where "OUTER_R = SPHERE_DIAMETER / 2"
definition INNER_R :: real where "INNER_R = OUTER_R - WALL_THICKNESS"
definition MAX_KEY_RADIUS :: real where "MAX_KEY_RADIUS = 6"

definition ADD_SURFACE_NOISE :: bool where "ADD_SURFACE_NOISE = True"
definition segments :: nat where "segments = 64"
definition ring_count :: nat where "ring_count = 32"
definition noise_strength :: real where "noise_strength = 3 / 10 * OUTER_R"
definition noise_scale :: real where "noise_scale = 2 / OUTER_R"

lemmas config_defs =
  SPHERE_DIAMETER_def WALL_THICKNESS_def PEG_LENGTH_def CLEARANCE_def OVERLAP_def
  BEAD_COUNT_def KEY_SHAPES_def KEYS_PER_BEAD_def OUTER_R_def INNER_R_def
  MAX_KEY_RADIUS_def noise_strength_def noise_scale_def

section \<open>The random number generator\<close>

text \<open>
  The process-wide generator of Python's \<^verbatim>\<open>random\<close> module is a stream of unit draws
  \<open>rnd 0, rnd 1, \<dots>\<close> (the results of successive \<^verbatim>\<open>random.random()\<close> calls after
  \<^verbatim>\<open>random.seed(SEED)\<close>) together with the position of the next draw, which is the
  state that is threaded through the program. \<^verbatim>\<open>random.uniform(a, b)\<close> is
  \<^verbatim>\<open>a + (b - a) * random()\<close>.
\<close>

type_synonym rng_stream = "nat \<Rightarrow> real"

definition uniform :: "real \<Rightarrow> real \<Rightarrow> real \<Rightarrow> real" where
  "uniform a b u = a + (b - a) * u"

definition hypot :: "real \<Rightarrow> real \<Rightarrow> real" where
  "hypot x y = sqrt (x\<^sup>2 + y\<^sup>2)"

section \<open>Key placement\<close>

definition usable_radius_for_keys :: real where
  "usable_radius_for_keys = INNER_R - MAX_KEY_RADIUS"

text \<open>The point drawn by one pass through the loop body, from its two unit draws.\<close>

definition candidate :: "real \<Rightarrow> real \<Rightarrow> real \<times> real" where
  "candidate u1 u2 =
     (let r = uniform 0 usable_radius_for_keys u1;
          ang = uniform 0 (2 * pi) u2
      in (r * cos ang, r * sin ang))"

text \<open>The acceptance test \<^verbatim>\<open>all(math.hypot(x - cx, y - cy) > MAX_KEY_RADIUS * 2 ...)\<close>.\<close>

definition clear_of :: "real \<times> real \<Rightarrow> (real \<times> real) list \<Rightarrow> bool" where
  "clear_of p coords =
     list_all (\<lambda>(cx, cy). hypot (fst p - cx) (snd p - cy) > MAX_KEY_RADIUS * 2) coords"

text \<open>
  The \<^verbatim>\<open>while\<close> loop of \<^verbatim>\<open>random_key_positions\<close>. Its state is the list of accepted
  coordinates, the attempt counter and the position in the stream of draws; the loop
  returns the state in which its condition fails.
\<close>

function rkp_loop ::
  "rng_stream \<Rightarrow> int \<Rightarrow> (real \<times> real) list \<Rightarrow> nat \<Rightarrow> nat \<Rightarrow> (real \<times> real) list \<times> nat \<times> nat"
where
  "rkp_loop rnd n coords attempts g =
     (if int (length coords) < n \<and> attempts < 1000 then
        let p = candidate (rnd g) (rnd (g + 1));
            coords' = (if clear_of p coords then coords @ [p] else coords)
        in rkp_loop rnd n coords' (attempts + 1) (g + 2)
      else (coords, attempts, g))"
  by pat_completeness auto
termination
  by (relation "measure (\<lambda>(rnd, n, coords, attempts, g). 1000 - attempts)") auto

declare rkp_loop.simps [simp del]

definition random_key_positions :: "rng_stream \<Rightarrow> int \<Rightarrow> nat \<Rightarrow> (real \<times> real) list \<times> nat" where
  "random_key_positions rnd n g =
     (case rkp_loop rnd n [] 0 g of (coords, attempts, g') \<Rightarrow> (coords, g'))"


section \<open>Key placement in double precision\<close>













section \<open>Vectors and mesh objects\<close>

text \<open>
  A \<^verbatim>\<open>mathutils.Vector\<close> is a triple of reals. \<^verbatim>\<open>normalized()\<close> returns the zero
  vector for a vector of length zero.
\<close>

type_synonym vec = "real \<times> real \<times> real"

definition vx :: "vec \<Rightarrow> real" where "vx v = fst v"
definition vy :: "vec \<Rightarrow> real" where "vy v = fst (snd v)"
definition vz :: "vec \<Rightarrow> real" where "vz v = snd (snd v)"

definition vadd :: "vec \<Rightarrow> vec \<Rightarrow> vec" where
  "vadd a b = (vx a + vx b, vy a + vy b, vz a + vz b)"

definition vscale :: "vec \<Rightarrow> real \<Rightarrow> vec" where
  "vscale a k = (vx a * k, vy a * k, vz a * k)"

definition vmul :: "vec \<Rightarrow> vec \<Rightarrow> vec" where
  "vmul a b = (vx a * vx b, vy a * vy b, vz a * vz b)"

definition vlength :: "vec \<Rightarrow> real" where
  "vlength a = sqrt ((vx a)\<^sup>2 + (vy a)\<^sup>2 + (vz a)\<^sup>2)"

definition normalized :: "vec \<Rightarrow> vec" where
  "normalized a = (if vlength a = 0 then (0, 0, 0) else vscale a (1 / vlength a))"

text \<open>
  A mesh object of the scene as far as the program reads and writes it: its name, the
  vertex coordinates of its mesh data (in the object's own frame), its location and its
  scale. Faces are not represented.
\<close>

record mesh_obj =
  oname :: string
  overts :: "vec list"
  olocation :: vec
  oscale :: vec

definition world_verts :: "mesh_obj \<Rightarrow> vec list" where
  "world_verts ob = map (\<lambda>v. vadd (vmul v (oscale ob)) (olocation ob)) (overts ob)"

text \<open>Distance of a point from the z-axis, and the z-range covered by a vertex list.\<close>

definition planar_dist :: "vec \<Rightarrow> real" where
  "planar_dist v = hypot (vx v) (vy v)"

definition z_min :: "vec list \<Rightarrow> real" where
  "z_min vs = Min (set (map vz vs))"

definition z_max :: "vec list \<Rightarrow> real" where
  "z_max vs = Max (set (map vz vs))"

subsection \<open>The primitives of the host\<close>

text \<open>
  The mesh primitives of \<^verbatim>\<open>bpy.ops.mesh\<close>, by their documented geometry, created at the
  origin with unit scale. A cube of edge \<open>size\<close> has its eight corners at \<open>\<plusminus> size / 2\<close> on each axis.
  A cone with \<open>vertices = k\<close> has a ring of \<open>k\<close> vertices of radius \<open>radius1\<close> at
  \<open>z = - depth / 2\<close> and a ring of radius \<open>radius2\<close> at \<open>z = depth / 2\<close> (both radii
  are non-zero wherever the program calls it); a cylinder is the cone of equal radii, with
  32 vertices unless told otherwise.
\<close>

definition ring_point :: "nat \<Rightarrow> real \<Rightarrow> real \<Rightarrow> nat \<Rightarrow> vec" where
  "ring_point k r z i =
     (r * sin (2 * pi * real i / real k), r * cos (2 * pi * real i / real k), z)"

definition primitive_cone_add :: "real \<Rightarrow> real \<Rightarrow> real \<Rightarrow> nat \<Rightarrow> mesh_obj" where
  "primitive_cone_add radius1 radius2 depth k =
     \<lparr> oname = ''Cone'',
       overts = map (ring_point k radius1 (- depth / 2)) [0..<k]
              @ map (ring_point k radius2 (depth / 2)) [0..<k],
       olocation = (0, 0, 0), oscale = (1, 1, 1) \<rparr>"

definition primitive_cylinder_add :: "real \<Rightarrow> real \<Rightarrow> nat \<Rightarrow> mesh_obj" where
  "primitive_cylinder_add radius depth k =
     (primitive_cone_add radius radius depth k) \<lparr> oname := ''Cylinder'' \<rparr>"

definition primitive_cube_add :: "real \<Rightarrow> mesh_obj" where
  "primitive_cube_add edge =
     \<lparr> oname = ''Cube'',
       overts = [(sx * edge / 2, sy * edge / 2, sz * edge / 2).
                   sx \<leftarrow> [-1, 1], sy \<leftarrow> [-1, 1], sz \<leftarrow> [-1, 1]],
       olocation = (0, 0, 0), oscale = (1, 1, 1) \<rparr>"

text \<open>\<^verbatim>\<open>transform_apply(scale=True)\<close>: the scale is baked into the mesh data and reset.\<close>

definition transform_apply_scale :: "mesh_obj \<Rightarrow> mesh_obj" where
  "transform_apply_scale ob =
     ob \<lparr> overts := map (\<lambda>v. vmul v (oscale ob)) (overts ob), oscale := (1, 1, 1) \<rparr>"

section \<open>Primitive factories\<close>

datatype py_error = KeyError string | ZeroDivisionError

definition cylinder :: "real \<Rightarrow> real \<Rightarrow> py_error + mesh_obj" where
  "cylinder radius height = Inr (primitive_cylinder_add radius height 32)"

definition triangular_prism :: "real \<Rightarrow> real \<Rightarrow> py_error + mesh_obj" where
  "triangular_prism radius height = Inr (primitive_cone_add radius radius height 3)"

definition square_prism :: "real \<Rightarrow> real \<Rightarrow> py_error + mesh_obj" where
  "square_prism radius height =
     (let obj = primitive_cube_add (radius * 2)
      in if radius * 2 = 0 then Inl ZeroDivisionError
         else let obj = obj \<lparr> oscale := (vx (oscale obj), vy (oscale obj), height / (radius * 2)) \<rparr>
              in Inr (transform_apply_scale obj))"

definition hexagon :: "real \<Rightarrow> real \<Rightarrow> py_error + mesh_obj" where
  "hexagon radius height = Inr (primitive_cylinder_add radius height 6)"

definition SHAPE_FACTORIES :: "string \<rightharpoonup> (real \<Rightarrow> real \<Rightarrow> py_error + mesh_obj)" where
  "SHAPE_FACTORIES =
     [''cylinder'' \<mapsto> cylinder, ''triangle'' \<mapsto> triangular_prism,
      ''square'' \<mapsto> square_prism, ''hexagon'' \<mapsto> hexagon]"

section \<open>Program state, log and the host's operators\<close>

datatype bool_op = DIFFERENCE | UNION | INTERSECT

text \<open>
  The log is the list of messages passed to \<^verbatim>\<open>log_message\<close>, oldest first. An entry
  holds the message's kind and the values formatted into it; timestamps, the names the
  host gives to objects, and the choice between log file and console are left out.
\<close>

datatype log_entry =
    AddingNoise | NoiseApplied
  | KeyMsg nat string real real
  | ApplyingBoolean bool_op string
  | BooleanApplied | BooleanError
  | CleanupStart | CleanupOk | CleanupError
  | Exporting nat bool | Exported | ExportError
  | GeneratingTop nat | GeneratingBottom nat | ExportingHalves nat
  | Layout nat | LayoutKey string real real | Separator
  | Finished | CriticalError py_error | Traceback

text \<open>
  The state the program changes: the position in the stream of random draws, the log, and
  the halves written out so far (bead number, top or bottom, mesh).
\<close>

record 'm world =
  rng :: nat
  log :: "log_entry list"
  exported :: "(nat \<times> bool \<times> 'm) list"

definition log_message :: "log_entry \<Rightarrow> 'm world \<Rightarrow> 'm world" where
  "log_message e w = w \<lparr> log := log w @ [e] \<rparr>"

text \<open>
  The operators of the host that the program calls on the base solid are parameters; \<open>'m\<close>
  is the host's mesh data. \<open>modifier_apply\<close> and \<open>stl_export\<close> may raise
  \<^verbatim>\<open>RuntimeError\<close> (\<open>None\<close>, \<open>False\<close>); \<open>mesh_cleanup\<close> returns the mesh it leaves and
  whether all its operators succeeded.
\<close>

record 'm blender =
  primitive_uv_sphere_add :: "nat \<Rightarrow> nat \<Rightarrow> real \<Rightarrow> vec list"
  noise :: "vec \<Rightarrow> real"
  bisect :: "vec \<Rightarrow> vec list \<Rightarrow> 'm"
  modifier_apply :: "'m \<Rightarrow> mesh_obj \<Rightarrow> bool_op \<Rightarrow> 'm option"
  mesh_cleanup :: "'m \<Rightarrow> 'm \<times> bool"
  stl_export :: "'m \<Rightarrow> nat \<Rightarrow> bool \<Rightarrow> bool"

text \<open>
  A hemisphere object: its mesh and the boolean modifiers on its stack that have been
  added but not applied.
\<close>

record 'm hem_obj =
  hmesh :: 'm
  hmodifiers :: "bool_op list"

section \<open>Surface noise and the hemisphere\<close>

text \<open>The body of the loop over \<^verbatim>\<open>bm.verts\<close>, for the vertex at index \<open>i\<close>.\<close>

definition displace :: "(vec \<Rightarrow> real) \<Rightarrow> vec \<Rightarrow> vec" where
  "displace nz co =
     (let n = nz (vscale co noise_scale)
      in vadd co (vscale (vscale (normalized co) n) noise_strength))"

definition displace_at :: "(vec \<Rightarrow> real) \<Rightarrow> nat \<Rightarrow> vec list \<Rightarrow> vec list" where
  "displace_at nz i vs = vs[i := displace nz (vs ! i)]"

definition displace_verts :: "(vec \<Rightarrow> real) \<Rightarrow> nat list \<Rightarrow> vec list \<Rightarrow> vec list" where
  "displace_verts nz order vs = fold (displace_at nz) order vs"

text \<open>
  \<^verbatim>\<open>make_noisy_sphere\<close> visits the vertices of the new UV sphere in index order and
  updates each in place; the result is the list of displaced vertex coordinates. Smooth
  shading does not change the mesh.
\<close>

definition make_noisy_sphere :: "'m blender \<Rightarrow> vec list" where
  "make_noisy_sphere env =
     (let vs = primitive_uv_sphere_add env segments ring_count OUTER_R
      in displace_verts (noise env) [0..<length vs] vs)"

text \<open>
  \<^verbatim>\<open>make_solid_hemisphere\<close>: the sphere is cut at \<open>z = 0\<close> by the host's bisect operator,
  which keeps one half and fills the cut. The object's scale is \<open>1\<close>, so applying it
  afterwards changes nothing.
\<close>

definition make_solid_hemisphere :: "'m blender \<Rightarrow> bool \<Rightarrow> 'm world \<Rightarrow> 'm hem_obj \<times> 'm world" where
  "make_solid_hemisphere env is_top w =
     (let (sphere, w1) =
            (if ADD_SURFACE_NOISE
             then (make_noisy_sphere env, log_message NoiseApplied (log_message AddingNoise w))
             else (primitive_uv_sphere_add env 64 32 OUTER_R, w));
          plane_no = (if is_top then (0, 0, 1) else (0, 0, -1))
      in (\<lparr> hmesh = bisect env plane_no sphere, hmodifiers = [] \<rparr>, w1))"

section \<open>Building and merging the keys\<close>

text \<open>Python's \<^verbatim>\<open>str\<close> on a non-negative integer, as used by the f-strings for names.\<close>

fun str_nat :: "nat \<Rightarrow> string" where
  "str_nat n =
     (if n < 10 then [char_of (48 + n)]
      else str_nat (n div 10) @ [char_of (48 + n mod 10)])"

declare str_nat.simps [simp del]

text \<open>The radius and height handed to the factory in each branch of \<^verbatim>\<open>add_keys\<close>.\<close>

definition key_params :: "bool \<Rightarrow> real \<times> real" where
  "key_params is_top =
     (if is_top then (MAX_KEY_RADIUS, PEG_LENGTH)
      else (MAX_KEY_RADIUS + CLEARANCE, PEG_LENGTH + CLEARANCE))"

text \<open>
  The tool object of one key as it is handed to \<^verbatim>\<open>boolean\<close>: made by the factory, then
  named and placed.
\<close>

definition build_key ::
  "(real \<Rightarrow> real \<Rightarrow> py_error + mesh_obj) \<Rightarrow> bool \<Rightarrow> nat \<Rightarrow> string \<Rightarrow> real \<Rightarrow> real
     \<Rightarrow> py_error + mesh_obj"
where
  "build_key factory is_top i shape x y =
     (let (radius, height) = key_params is_top
      in case factory radius height of
           Inl e \<Rightarrow> Inl e
         | Inr key \<Rightarrow>
             if is_top then
               let key = key \<lparr> oname := ''Peg_'' @ shape @ ''_'' @ str_nat i \<rparr>;
                   key_z = - (height / 2 - OVERLAP)
               in Inr (key \<lparr> olocation := (x, y, key_z) \<rparr>)
             else
               let key = key \<lparr> oname := ''SocketCutter_'' @ shape @ ''_'' @ str_nat i \<rparr>;
                   key_z = height / 2 - OVERLAP
               in Inr (key \<lparr> olocation := (x, y, key_z) \<rparr>))"

text \<open>
  \<^verbatim>\<open>boolean\<close>: the modifier is put on the target's stack, then applied. Applying it
  replaces the mesh and takes the modifier off the stack; when the host raises
  \<^verbatim>\<open>RuntimeError\<close> the handler only logs.
\<close>

definition boolean ::
  "'m blender \<Rightarrow> 'm hem_obj \<Rightarrow> mesh_obj \<Rightarrow> bool_op \<Rightarrow> 'm world \<Rightarrow> 'm hem_obj \<times> 'm world"
where
  "boolean env target tool op_type w =
     (let target = target \<lparr> hmodifiers := hmodifiers target @ [op_type] \<rparr>;
          w = log_message (ApplyingBoolean op_type (oname tool)) w
      in case modifier_apply env (hmesh target) tool op_type of
           Some m \<Rightarrow>
             (target \<lparr> hmesh := m, hmodifiers := butlast (hmodifiers target) \<rparr>,
              log_message BooleanApplied w)
         | None \<Rightarrow> (target, log_message BooleanError w))"

text \<open>
  The \<^verbatim>\<open>for\<close> loop of \<^verbatim>\<open>add_keys\<close> over \<^verbatim>\<open>enumerate(key_specs, 1)\<close>. An exception
  leaves the loop with the state reached so far.
\<close>

fun add_keys_loop ::
  "'m blender \<Rightarrow> bool \<Rightarrow> nat \<Rightarrow> (string \<times> real \<times> real) list \<Rightarrow> 'm hem_obj \<Rightarrow> 'm world
     \<Rightarrow> (py_error \<times> 'm world) + ('m hem_obj \<times> 'm world)"
where
  "add_keys_loop env is_top i [] hemisphere w = Inr (hemisphere, w)"
| "add_keys_loop env is_top i ((shape, x, y) # rest) hemisphere w =
     (case SHAPE_FACTORIES shape of
        None \<Rightarrow> Inl (KeyError shape, w)
      | Some factory \<Rightarrow>
          let w = log_message (KeyMsg i shape x y) w
          in case build_key factory is_top i shape x y of
               Inl e \<Rightarrow> Inl (e, w)
             | Inr key \<Rightarrow>
                 let (hemisphere, w) =
                       boolean env hemisphere key (if is_top then UNION else DIFFERENCE) w
                 in add_keys_loop env is_top (i + 1) rest hemisphere w)"

definition add_keys ::
  "'m blender \<Rightarrow> 'm hem_obj \<Rightarrow> (string \<times> real \<times> real) list \<Rightarrow> bool \<Rightarrow> 'm world
     \<Rightarrow> (py_error \<times> 'm world) + ('m hem_obj \<times> 'm world)"
where
  "add_keys env hemisphere key_specs is_top w =
     (case add_keys_loop env is_top 1 key_specs hemisphere w of
        Inl e \<Rightarrow> Inl e
      | Inr (hemisphere, w) \<Rightarrow>
          let w = log_message CleanupStart w;
              (m, ok) = mesh_cleanup env (hmesh hemisphere)
          in Inr (hemisphere \<lparr> hmesh := m \<rparr>,
                  log_message (if ok then CleanupOk else CleanupError) w))"

section \<open>Export and the main loop\<close>





section \<open>Notions used to state the properties\<close>

text \<open>The key specifications announced in a stretch of the log, in order.\<close>

fun key_of :: "log_entry \<Rightarrow> (string \<times> real \<times> real) option" where
  "key_of (KeyMsg i shape x y) = Some (shape, x, y)"
| "key_of _ = None"

definition keys_logged :: "log_entry list \<Rightarrow> (string \<times> real \<times> real) list" where
  "keys_logged es = List.map_filter key_of es"


text \<open>
  The specification's account of merging: the evaluator is applied to each tool in
  turn, and a tool whose evaluation fails is skipped.
\<close>

definition merge_skipping_failures ::
  "('m \<Rightarrow> mesh_obj \<Rightarrow> bool_op \<Rightarrow> 'm option) \<Rightarrow> bool_op \<Rightarrow> mesh_obj list \<Rightarrow> 'm \<Rightarrow> 'm" where
  "merge_skipping_failures ev op_type tools m =
     fold (\<lambda>tool m. case ev m tool op_type of None \<Rightarrow> m | Some m' \<Rightarrow> m') tools m"

text \<open>
  The tool objects that \<^verbatim>\<open>add_keys\<close> builds for a list of key specifications, numbered
  from \<open>i\<close>, in order.
\<close>

fun key_tools :: "bool \<Rightarrow> nat \<Rightarrow> (string \<times> real \<times> real) list \<Rightarrow> mesh_obj list" where
  "key_tools is_top i [] = []"
| "key_tools is_top i ((shape, x, y) # rest) =
     (case SHAPE_FACTORIES shape of
        None \<Rightarrow> []
      | Some factory \<Rightarrow>
          (case build_key factory is_top i shape x y of
             Inl e \<Rightarrow> []
           | Inr key \<Rightarrow> key # key_tools is_top (i + 1) rest))"

text \<open>Log entries that record a call of the evaluator, and entries that open a phase.\<close>

fun is_attempt :: "log_entry \<Rightarrow> bool" where
  "is_attempt (ApplyingBoolean op_type nm) = True"
| "is_attempt _ = False"

fun is_header :: "log_entry \<Rightarrow> bool" where
  "is_header (GeneratingTop idx) = True"
| "is_header (GeneratingBottom idx) = True"
| "is_header (ExportingHalves idx) = True"
| "is_header _ = False"


subsection \<open>Sample streams of draws\<close>

text \<open>
  Two streams for concrete runs: \<open>demo_draws\<close> places its first two candidates at
  \<open>(20, 0)\<close> and \<open>(-20, 0)\<close>; \<open>still_draws\<close> puts every candidate at the centre.
\<close>

definition demo_draws :: rng_stream where
  "demo_draws i = (if i = 3 then 1 / 2 else if even i then 20 / 21 else 0)"


subsection \<open>A sample math library\<close>



subsection \<open>A sample host\<close>

text \<open>
  A host whose mesh data is the number of tools merged so far and whose evaluator fails
  on the tool named \<^verbatim>\<open>Peg_triangle_2\<close>, with the specifications of three keys.
\<close>

definition demo_env :: "nat blender" where
  "demo_env =
     \<lparr> primitive_uv_sphere_add = (\<lambda>s r d. []),
       noise = (\<lambda>p. 0),
       bisect = (\<lambda>n vs. 0),
       modifier_apply = (\<lambda>m tool op_type. if oname tool = ''Peg_triangle_2'' then None else Some (m + 1)),
       mesh_cleanup = (\<lambda>m. (m, True)),
       stl_export = (\<lambda>m idx is_top. True) \<rparr>"

definition demo_specs :: "(string \<times> real \<times> real) list" where
  "demo_specs = [(''cylinder'', 0, 0), (''triangle'', 10, 0), (''square'', -10, 0)]"

definition demo_world :: "nat world" where
  "demo_world = \<lparr> rng = 0, log = [], exported = [] \<rparr>"

section \<open>Properties of key placement\<close>

lemma hypot_gt_iff: "0 \<le> c \<Longrightarrow> (c < hypot x y) = (c\<^sup>2 < x\<^sup>2 + y\<^sup>2)"
  unfolding hypot_def by (metis real_less_rsqrt real_sqrt_less_iff real_sqrt_abs abs_of_nonneg not_less real_sqrt_le_iff real_le_lsqrt  sum_power2_ge_zero)

lemma rkp_loop_step:
  "int (length coords) < n \<Longrightarrow> attempts < 1000 \<Longrightarrow>
   rkp_loop rnd n coords attempts g =
     rkp_loop rnd n
       (if clear_of (candidate (rnd g) (rnd (g + 1))) coords
        then coords @ [candidate (rnd g) (rnd (g + 1))] else coords)
       (Suc attempts) (g + 2)"
  by (subst rkp_loop.simps) (simp add: Let_def)

lemma rkp_loop_stop:
  "\<not> (int (length coords) < n \<and> attempts < 1000) \<Longrightarrow>
   rkp_loop rnd n coords attempts g = (coords, attempts, g)"
  by (subst rkp_loop.simps) auto


lemma rkp_loop_first:
  "1 \<le> n \<Longrightarrow> rkp_loop rnd n [] 0 g = rkp_loop rnd n [candidate (rnd g) (rnd (g + 1))] 1 (g + 2)"
  using rkp_loop_step[of "[]" n 0 rnd g] by (simp add: clear_of_def)

lemma rkp_loop_prefix:
  "rkp_loop rnd n coords attempts g = (cs, a', g') \<Longrightarrow> \<exists>ys. cs = coords @ ys"
proof (induction rnd n coords attempts g rule: rkp_loop.induct)
  case (1 rnd n coords attempts g)
  show ?case
  proof (cases "int (length coords) < n \<and> attempts < 1000")
    case True
    let ?p = "candidate (rnd g) (rnd (g + 1))"
    let ?c = "if clear_of ?p coords then coords @ [?p] else coords"
    have "rkp_loop rnd n ?c (attempts + 1) (g + 2) = (cs, a', g')"
      using "1.prems"(1) True rkp_loop_step[of coords n attempts rnd g] by simp
    from "1.IH"[OF True refl refl this] show ?thesis by (auto split: if_splits)
  next
    case False
    then show ?thesis using "1.prems" rkp_loop_stop[of coords n attempts rnd g] by auto
  qed
qed


lemma usable_radius_value: "usable_radius_for_keys = 21"
  by (simp add: usable_radius_for_keys_def config_defs)

lemma candidate_demo0: "candidate (20 / 21) 0 = (20, 0)"
  by (simp add: candidate_def uniform_def usable_radius_value)

lemma candidate_demo1: "candidate (20 / 21) (1 / 2) = (-20, 0)"
  by (simp add: candidate_def uniform_def usable_radius_value)

lemma demo_run: "rkp_loop demo_draws 2 [] 0 0 = ([(20, 0), (-20, 0)], 2, 4)"
proof -
  have c: "clear_of (-20, 0) [(20, 0)]"
    by (simp add: clear_of_def hypot_gt_iff MAX_KEY_RADIUS_def)
  have "rkp_loop demo_draws 2 [] 0 0 = rkp_loop demo_draws 2 [(20, 0)] (Suc 0) (0 + 2)"
    using rkp_loop_step[of "[]" 2 0 demo_draws 0]
    by (simp add: demo_draws_def candidate_demo0 clear_of_def)
  also have "\<dots> = rkp_loop demo_draws 2 [(20, 0), (-20, 0)] (Suc (Suc 0)) (0 + 2 + 2)"
    using rkp_loop_step[of "[(20, 0)]" 2 "Suc 0" demo_draws "0 + 2"] c
    by (simp add: demo_draws_def candidate_demo1)
  also have "\<dots> = ([(20, 0), (-20, 0)], Suc (Suc 0), 0 + 2 + 2)"
    by (rule rkp_loop_stop) simp
  finally show ?thesis by simp
qed





text \<open>
  C10: for every requested count \<open>n \<ge> 1\<close> the planner returns a non-empty sequence: the
  first candidate drawn is always accepted, since there is no earlier point to be clear
  of and the attempt budget allows at least one draw.
\<close>

theorem first_candidate_accepted:
  assumes "1 \<le> n" and "random_key_positions rnd n g = (coords, g')"
  shows "coords \<noteq> [] \<and> hd coords = candidate (rnd g) (rnd (g + 1))"
proof -
  obtain a' where "rkp_loop rnd n [] 0 g = (coords, a', g')"
    using assms(2) by (auto simp: random_key_positions_def split: prod.splits)
  then have "rkp_loop rnd n [candidate (rnd g) (rnd (g + 1))] 1 (g + 2) = (coords, a', g')"
    using rkp_loop_first[OF assms(1)] by simp
  from rkp_loop_prefix[OF this] show ?thesis by auto
qed

theorem first_candidate_accepted_witness:
  "(1::int) \<le> 2 \<and> random_key_positions demo_draws 2 0 = ([(20, 0), (-20, 0)], 4)
   \<and> [(20, 0), (-20, 0)] \<noteq> ([] :: (real \<times> real) list)
   \<and> hd [(20, 0), (-20, 0)] = candidate (demo_draws 0) (demo_draws (0 + 1))"
proof -
  have n: "(1::int) \<le> 2" by simp
  have r: "random_key_positions demo_draws 2 0 = ([(20, 0), (-20, 0)], 4)"
    by (simp add: random_key_positions_def demo_run)
  from first_candidate_accepted[OF n r] n r show ?thesis by simp
qed



































section \<open>Properties of the primitives and the key tools\<close>

lemma planar_ring: "planar_dist (ring_point k r z i) = \<bar>r\<bar>"
proof -
  have "(r * sin a)\<^sup>2 + (r * cos a)\<^sup>2 = r\<^sup>2" for a
  proof -
    have "(r * sin a)\<^sup>2 + (r * cos a)\<^sup>2 = r\<^sup>2 * (sin a)\<^sup>2 + r\<^sup>2 * (cos a)\<^sup>2"
      by (simp add: power_mult_distrib)
    also have "\<dots> = r\<^sup>2 * ((sin a)\<^sup>2 + (cos a)\<^sup>2)"
      by (rule distrib_left [symmetric])
    also have "\<dots> = r\<^sup>2" by simp
    finally show ?thesis .
  qed
  then show ?thesis
    by (simp add: planar_dist_def ring_point_def hypot_def vx_def vy_def)
qed

lemma vz_ring: "vz (ring_point k r z i) = z"
  by (simp add: ring_point_def vz_def)

lemma vadd_zero: "vadd (vmul v (1, 1, 1)) (0, 0, 0) = v"
  by (simp add: vadd_def vmul_def vx_def vy_def vz_def)

lemma cone_world [simp]:
  "world_verts (primitive_cone_add r1 r2 d k) = overts (primitive_cone_add r1 r2 d k)"
  by (simp add: world_verts_def primitive_cone_add_def vadd_zero)

lemma cone_verts:
  "set (overts (primitive_cone_add r r d k)) =
     ring_point k r (- d / 2) ` {..<k} \<union> ring_point k r (d / 2) ` {..<k}"
  by (auto simp: primitive_cone_add_def)

lemma cylinder_verts:
  "overts (primitive_cylinder_add r d k) = overts (primitive_cone_add r r d k)"
  "olocation (primitive_cylinder_add r d k) = (0, 0, 0)"
  "oscale (primitive_cylinder_add r d k) = (1, 1, 1)"
  by (simp_all add: primitive_cylinder_add_def primitive_cone_add_def)

lemma square_prism_ok:
  assumes "r \<noteq> 0"
  shows "square_prism r h =
     Inr \<lparr> oname = ''Cube'',
           overts = [(- r, - r, - h / 2), (- r, - r, h / 2), (- r, r, - h / 2), (- r, r, h / 2),
                     (r, - r, - h / 2), (r, - r, h / 2), (r, r, - h / 2), (r, r, h / 2)],
           olocation = (0, 0, 0), oscale = (1, 1, 1) \<rparr>"
  using assms
  by (simp add: square_prism_def primitive_cube_add_def transform_apply_scale_def Let_def
      vmul_def vx_def vy_def vz_def)

lemma hypot_diag: "hypot r r = \<bar>r\<bar> * sqrt 2" "hypot (- r) r = \<bar>r\<bar> * sqrt 2"
  "hypot r (- r) = \<bar>r\<bar> * sqrt 2" "hypot (- r) (- r) = \<bar>r\<bar> * sqrt 2"
  by (simp_all add: hypot_def real_sqrt_mult flip: mult_2)

lemma sqrt2_gt1: "1 < sqrt 2"
  by (simp add: real_less_rsqrt)

lemma vz_cone:
  assumes "0 < k"
  shows "vz ` set (overts (primitive_cone_add r r d k)) = {- d / 2, d / 2}"
proof -
  have ne: "{..<k} \<noteq> {}" using assms by auto
  have "vz ` ring_point k r z ` {..<k} = {z}" for z
    using ne by (auto simp: vz_ring image_image)
  then show ?thesis by (simp add: cone_verts image_Un insert_commute)
qed

lemma shape_cases:
  assumes "SHAPE_FACTORIES shape = Some f"
  shows "f = cylinder \<or> f = triangular_prism \<or> f = square_prism \<or> f = hexagon"
  using assms by (auto simp: SHAPE_FACTORIES_def split: if_splits)

lemma factory_shape:
  assumes "SHAPE_FACTORIES shape = Some f" and "r \<noteq> 0"
  shows "\<exists>ob. f r h = Inr ob \<and> oscale ob = (1, 1, 1) \<and> olocation ob = (0, 0, 0)
           \<and> vz ` set (overts ob) = {- h / 2, h / 2}"
  using shape_cases[OF assms(1)]
proof (elim disjE)
  assume "f = cylinder"
  then show ?thesis by (simp add: cylinder_def cylinder_verts vz_cone)
next
  assume "f = triangular_prism"
  then show ?thesis by (simp add: triangular_prism_def vz_cone) (simp add: primitive_cone_add_def)
next
  assume "f = square_prism"
  then show ?thesis using assms(2)
    by (simp add: square_prism_ok vz_def insert_commute)
next
  assume "f = hexagon"
  then show ?thesis by (simp add: hexagon_def cylinder_verts vz_cone)
qed

lemma z_range:
  assumes "vz ` set vs = {lo, hi}" and "lo \<le> hi"
  shows "z_min vs = lo" and "z_max vs = hi"
  using assms by (simp_all add: z_min_def z_max_def min_def max_def)

lemma vz_placed:
  assumes "oscale ob = (1, 1, 1)" and "vz ` set (overts ob) = {lo, hi}"
  shows "vz ` set (world_verts (ob \<lparr> oname := nm, olocation := (x, y, z0) \<rparr>)) = {lo + z0, hi + z0}"
proof -
  have "vz (vadd (vmul v (1, 1, 1)) (x, y, z0)) = vz v + z0" for v
    by (simp add: vadd_def vmul_def vx_def vy_def vz_def)
  then have "vz ` set (world_verts (ob \<lparr> oname := nm, olocation := (x, y, z0) \<rparr>))
             = (\<lambda>z. z + z0) ` (vz ` set (overts ob))"
    using assms(1) by (simp add: world_verts_def image_image)
  then show ?thesis using assms(2) by simp
qed

lemma build_key_peg:
  assumes "f MAX_KEY_RADIUS PEG_LENGTH = Inr ob"
  shows "build_key f True i shape x y =
           Inr (ob \<lparr> oname := ''Peg_'' @ shape @ ''_'' @ str_nat i,
                     olocation := (x, y, - (PEG_LENGTH / 2 - OVERLAP)) \<rparr>)"
  using assms by (simp add: build_key_def key_params_def)

lemma build_key_socket:
  assumes "f (MAX_KEY_RADIUS + CLEARANCE) (PEG_LENGTH + CLEARANCE) = Inr ob"
  shows "build_key f False i shape x y =
           Inr (ob \<lparr> oname := ''SocketCutter_'' @ shape @ ''_'' @ str_nat i,
                     olocation := (x, y, (PEG_LENGTH + CLEARANCE) / 2 - OVERLAP) \<rparr>)"
  using assms by (simp add: build_key_def key_params_def)

lemma peg_extent:
  assumes "SHAPE_FACTORIES shape = Some f"
  shows "\<exists>raw peg. f MAX_KEY_RADIUS PEG_LENGTH = Inr raw
           \<and> build_key f True i shape x y = Inr peg
           \<and> overts peg = overts raw
           \<and> olocation peg = (x, y, - (PEG_LENGTH / 2 - OVERLAP))
           \<and> z_min (world_verts peg) = - (PEG_LENGTH - OVERLAP)
           \<and> z_max (world_verts peg) = OVERLAP"
proof -
  have "MAX_KEY_RADIUS \<noteq> 0" by (simp add: MAX_KEY_RADIUS_def)
  from factory_shape[OF assms this, of PEG_LENGTH]
  obtain raw where raw: "f MAX_KEY_RADIUS PEG_LENGTH = Inr raw" "oscale raw = (1, 1, 1)"
    "vz ` set (overts raw) = {- PEG_LENGTH / 2, PEG_LENGTH / 2}" by blast
  let ?peg = "raw \<lparr> oname := ''Peg_'' @ shape @ ''_'' @ str_nat i,
                     olocation := (x, y, - (PEG_LENGTH / 2 - OVERLAP)) \<rparr>"
  have b: "build_key f True i shape x y = Inr ?peg" using raw(1) by (rule build_key_peg)
  have v: "vz ` set (world_verts ?peg) = {- (PEG_LENGTH - OVERLAP), OVERLAP}"
    by (simp add: vz_placed[OF raw(2,3)] PEG_LENGTH_def OVERLAP_def)
  have le: "- (PEG_LENGTH - OVERLAP) \<le> OVERLAP" by (simp add: PEG_LENGTH_def OVERLAP_def)
  show ?thesis using raw(1) b z_range[OF v le] by simp
qed

lemma socket_extent:
  assumes "SHAPE_FACTORIES shape = Some f"
  shows "\<exists>raw socket. f (MAX_KEY_RADIUS + CLEARANCE) (PEG_LENGTH + CLEARANCE) = Inr raw
           \<and> build_key f False i shape x y = Inr socket
           \<and> overts socket = overts raw
           \<and> olocation socket = (x, y, (PEG_LENGTH + CLEARANCE) / 2 - OVERLAP)
           \<and> z_min (world_verts socket) = - OVERLAP
           \<and> z_max (world_verts socket) = (PEG_LENGTH + CLEARANCE) - OVERLAP"
proof -
  have "MAX_KEY_RADIUS + CLEARANCE \<noteq> 0" by (simp add: MAX_KEY_RADIUS_def CLEARANCE_def)
  from factory_shape[OF assms this, of "PEG_LENGTH + CLEARANCE"]
  obtain raw where raw: "f (MAX_KEY_RADIUS + CLEARANCE) (PEG_LENGTH + CLEARANCE) = Inr raw"
    "oscale raw = (1, 1, 1)"
    "vz ` set (overts raw) = {- (PEG_LENGTH + CLEARANCE) / 2, (PEG_LENGTH + CLEARANCE) / 2}" by blast
  let ?socket = "raw \<lparr> oname := ''SocketCutter_'' @ shape @ ''_'' @ str_nat i,
                     olocation := (x, y, (PEG_LENGTH + CLEARANCE) / 2 - OVERLAP) \<rparr>"
  have b: "build_key f False i shape x y = Inr ?socket" using raw(1) by (rule build_key_socket)
  have v: "vz ` set (world_verts ?socket) = {- OVERLAP, (PEG_LENGTH + CLEARANCE) - OVERLAP}"
    by (simp add: vz_placed[OF raw(2,3)] PEG_LENGTH_def OVERLAP_def CLEARANCE_def)
  have le: "- OVERLAP \<le> (PEG_LENGTH + CLEARANCE) - OVERLAP"
    by (simp add: PEG_LENGTH_def OVERLAP_def CLEARANCE_def)
  show ?thesis using raw(1) b z_range[OF v le] by simp
qed

lemma cylinder_world [simp]:
  "world_verts (primitive_cylinder_add r d k) = overts (primitive_cone_add r r d k)"
  by (simp add: world_verts_def cylinder_verts vadd_zero)

lemma planar_cone:
  assumes "v \<in> set (overts (primitive_cone_add r r d k))"
  shows "planar_dist v = \<bar>r\<bar>"
  using assms by (auto simp: cone_verts planar_ring)

lemma square_world:
  assumes "r \<noteq> 0" and "square_prism r h = Inr ob"
  shows "set (world_verts ob) =
     {(- r, - r, - h / 2), (- r, - r, h / 2), (- r, r, - h / 2), (- r, r, h / 2),
      (r, - r, - h / 2), (r, - r, h / 2), (r, r, - h / 2), (r, r, h / 2)}"
proof -
  have "ob = \<lparr> oname = ''Cube'',
           overts = [(- r, - r, - h / 2), (- r, - r, h / 2), (- r, r, - h / 2), (- r, r, h / 2),
                     (r, - r, - h / 2), (r, - r, h / 2), (r, r, - h / 2), (r, r, h / 2)],
           olocation = (0, 0, 0), oscale = (1, 1, 1) \<rparr>"
    using assms(2) square_prism_ok[OF assms(1), of h] by simp
  then have "world_verts ob =
      [(- r, - r, - h / 2), (- r, - r, h / 2), (- r, r, - h / 2), (- r, r, h / 2),
       (r, - r, - h / 2), (r, - r, h / 2), (r, r, - h / 2), (r, r, h / 2)]"
    by (simp add: world_verts_def vadd_def vmul_def vx_def vy_def vz_def)
  then show ?thesis by simp
qed

lemma square_peg_world:
  "\<exists>peg. build_key square_prism True i shape x y = Inr peg
     \<and> (x + 6, y + 6, OVERLAP) \<in> set (world_verts peg)"
proof -
  have ne: "MAX_KEY_RADIUS \<noteq> 0" by (simp add: MAX_KEY_RADIUS_def)
  show ?thesis
    by (simp add: build_key_def key_params_def square_prism_ok[OF ne] world_verts_def
        vadd_def vmul_def vx_def vy_def vz_def)
       (simp add: MAX_KEY_RADIUS_def PEG_LENGTH_def OVERLAP_def)
qed

lemma square_factory: "SHAPE_FACTORIES ''square'' = Some square_prism"
  by (simp add: SHAPE_FACTORIES_def)

lemma hexagon_factory: "SHAPE_FACTORIES ''hexagon'' = Some hexagon"
  by (simp add: SHAPE_FACTORIES_def)

text \<open>
  C9: for every radius \<open>r > 0\<close> and height \<open>h\<close> the square prism has a square cross-section
  of side \<open>2 * r\<close>: its corners have \<open>|x| = |y| = r\<close> and lie at distance \<open>r * sqrt 2\<close>
  from the z-axis, strictly more than \<open>r\<close>, whereas every vertex of the cylinder, the
  triangular prism and the hexagon lies within distance \<open>r\<close> of the axis. So the bounds
  the planner computes from \<open>MAX_KEY_RADIUS\<close> do not bound the square key: a square peg
  centred inside the usable disk can reach beyond \<open>INNER_R\<close>, and a corner of a square peg
  can lie within \<open>MAX_KEY_RADIUS\<close> of a centre that is more than \<open>2 * MAX_KEY_RADIUS\<close>
  away from its own.
\<close>

theorem square_key_exceeds_radius:
  assumes "0 < r"
  shows "(\<exists>ob. square_prism r h = Inr ob
            \<and> (r, r, h / 2) \<in> set (world_verts ob) \<and> (- r, r, h / 2) \<in> set (world_verts ob)
            \<and> (\<forall>v\<in>set (world_verts ob).
                  \<bar>vx v\<bar> = r \<and> \<bar>vy v\<bar> = r \<and> planar_dist v = r * sqrt 2 \<and> r < planar_dist v))
       \<and> (\<exists>ob. cylinder r h = Inr ob \<and> (\<forall>v\<in>set (world_verts ob). planar_dist v \<le> r))
       \<and> (\<exists>ob. triangular_prism r h = Inr ob \<and> (\<forall>v\<in>set (world_verts ob). planar_dist v \<le> r))
       \<and> (\<exists>ob. hexagon r h = Inr ob \<and> (\<forall>v\<in>set (world_verts ob). planar_dist v \<le> r))
       \<and> (hypot (104 / 5) 0 \<le> usable_radius_for_keys
            \<and> (\<exists>peg. build_key square_prism True 3 ''square'' (104 / 5) 0 = Inr peg
                  \<and> (\<exists>v\<in>set (world_verts peg). INNER_R < planar_dist v)))
       \<and> (2 * MAX_KEY_RADIUS < hypot (9 - 0) (9 - 0)
            \<and> (\<exists>peg. build_key square_prism True 3 ''square'' 0 0 = Inr peg
                  \<and> (\<exists>v\<in>set (world_verts peg). hypot (vx v - 9) (vy v - 9) < MAX_KEY_RADIUS)))"
proof -
  have ne: "r \<noteq> 0" using assms by simp
  have gt: "r < r * sqrt 2" using assms sqrt2_gt1 by simp
  have sq: "\<exists>ob. square_prism r h = Inr ob
            \<and> (r, r, h / 2) \<in> set (world_verts ob) \<and> (- r, r, h / 2) \<in> set (world_verts ob)
            \<and> (\<forall>v\<in>set (world_verts ob).
                  \<bar>vx v\<bar> = r \<and> \<bar>vy v\<bar> = r \<and> planar_dist v = r * sqrt 2 \<and> r < planar_dist v)"
  proof -
    obtain ob where ob: "square_prism r h = Inr ob" by (simp add: square_prism_ok[OF ne])
    have "\<bar>vx v\<bar> = r \<and> \<bar>vy v\<bar> = r \<and> planar_dist v = r * sqrt 2 \<and> r < planar_dist v"
      if "v \<in> set (world_verts ob)" for v
    proof -
      from that obtain a b z where v: "v = (a, b, z)" and a: "a = r \<or> a = - r"
        and b: "b = r \<or> b = - r"
        unfolding square_world[OF ne ob] by blast
      have "hypot a b = \<bar>r\<bar> * sqrt 2"
        using a b by (elim disjE) (simp_all add: hypot_diag)
      then have "planar_dist v = r * sqrt 2"
        using assms by (simp add: v planar_dist_def vx_def vy_def)
      moreover have "\<bar>vx v\<bar> = r" "\<bar>vy v\<bar> = r"
        using a b assms by (auto simp: v vx_def vy_def)
      ultimately show ?thesis using gt by simp
    qed
    moreover have "(r, r, h / 2) \<in> set (world_verts ob)" "(- r, r, h / 2) \<in> set (world_verts ob)"
      unfolding square_world[OF ne ob] by simp_all
    ultimately show ?thesis using ob by blast
  qed
  have cy: "\<exists>ob. cylinder r h = Inr ob \<and> (\<forall>v\<in>set (world_verts ob). planar_dist v \<le> r)"
    using assms by (simp add: cylinder_def planar_cone)
  have tr: "\<exists>ob. triangular_prism r h = Inr ob \<and> (\<forall>v\<in>set (world_verts ob). planar_dist v \<le> r)"
    using assms by (simp add: triangular_prism_def planar_cone)
  have hx: "\<exists>ob. hexagon r h = Inr ob \<and> (\<forall>v\<in>set (world_verts ob). planar_dist v \<le> r)"
    using assms by (simp add: hexagon_def planar_cone)
  have c1: "hypot (104 / 5) 0 \<le> usable_radius_for_keys"
    by (simp add: hypot_def usable_radius_value)
  have c2: "\<exists>peg. build_key square_prism True 3 ''square'' (104 / 5) 0 = Inr peg
                  \<and> (\<exists>v\<in>set (world_verts peg). INNER_R < planar_dist v)"
  proof -
    from square_peg_world[of 3 "''square''" "104 / 5" 0]
    obtain peg where p: "build_key square_prism True 3 ''square'' (104 / 5) 0 = Inr peg"
      "(104 / 5 + 6, 0 + 6, OVERLAP) \<in> set (world_verts peg)" by blast
    have "INNER_R < planar_dist (104 / 5 + 6, 0 + 6, OVERLAP)"
      by (simp add: planar_dist_def vx_def vy_def hypot_gt_iff config_defs power2_eq_square)
    with p show ?thesis by blast
  qed
  have s1: "2 * MAX_KEY_RADIUS < hypot (9 - 0) (9 - 0)"
    by (simp add: hypot_gt_iff MAX_KEY_RADIUS_def)
  have s2: "\<exists>peg. build_key square_prism True 3 ''square'' 0 0 = Inr peg
                  \<and> (\<exists>v\<in>set (world_verts peg). hypot (vx v - 9) (vy v - 9) < MAX_KEY_RADIUS)"
  proof -
    from square_peg_world[of 3 "''square''" 0 0]
    obtain peg where p: "build_key square_prism True 3 ''square'' 0 0 = Inr peg"
      "(0 + 6, 0 + 6, OVERLAP) \<in> set (world_verts peg)" by blast
    have "hypot (- 3) (- 3) < 6"
      unfolding hypot_def by (rule real_less_lsqrt) simp_all
    then have "hypot (vx (0 + 6, 0 + 6, OVERLAP) - 9) (vy (0 + 6, 0 + 6, OVERLAP) - 9) < MAX_KEY_RADIUS"
      by (simp add: vx_def vy_def MAX_KEY_RADIUS_def)
    with p show ?thesis by blast
  qed
  show ?thesis
    by (rule conjI[OF sq conjI[OF cy conjI[OF tr conjI[OF hx conjI[OF conjI[OF c1 c2] conjI[OF s1 s2]]]]]])
qed

theorem square_key_exceeds_radius_witness:
  "(0::real) < 6
   \<and> (\<exists>ob. square_prism 6 20 = Inr ob \<and> (6, 6, 20 / 2) \<in> set (world_verts ob)
         \<and> planar_dist (6, 6, 20 / 2) = 6 * sqrt 2 \<and> 6 < planar_dist (6, 6, 20 / 2))"
proof -
  have p: "(0::real) < 6" by simp
  from square_key_exceeds_radius[OF p, of 20, THEN conjunct1]
  obtain ob where ob: "square_prism 6 20 = Inr ob" "(6, 6, 20 / 2) \<in> set (world_verts ob)"
    "\<forall>v\<in>set (world_verts ob).
        \<bar>vx v\<bar> = 6 \<and> \<bar>vy v\<bar> = 6 \<and> planar_dist v = 6 * sqrt 2 \<and> 6 < planar_dist v"
    by blast
  from ob(3) ob(2) have "planar_dist (6, 6, 20 / 2) = 6 * sqrt 2 \<and> 6 < planar_dist (6, 6, 20 / 2)"
    by blast
  with p ob(1,2) show ?thesis by blast
qed

text \<open>
  C4: for every key shape, the socket tool is built with the peg tool's radius plus the
  clearance and the peg tool's height plus the clearance (peg: \<open>MAX_KEY_RADIUS\<close> and
  \<open>PEG_LENGTH\<close>), and the built socket tool is taller than the built peg tool by exactly
  the clearance.
\<close>

theorem clearance_sizing:
  assumes "SHAPE_FACTORIES shape = Some factory"
  shows "key_params True = (MAX_KEY_RADIUS, PEG_LENGTH)
       \<and> key_params False = (fst (key_params True) + CLEARANCE, snd (key_params True) + CLEARANCE)
       \<and> (\<exists>raw_peg raw_socket peg socket.
             factory MAX_KEY_RADIUS PEG_LENGTH = Inr raw_peg
           \<and> factory (MAX_KEY_RADIUS + CLEARANCE) (PEG_LENGTH + CLEARANCE) = Inr raw_socket
           \<and> build_key factory True i shape x y = Inr peg
           \<and> build_key factory False i shape x y = Inr socket
           \<and> overts peg = overts raw_peg \<and> overts socket = overts raw_socket
           \<and> z_max (world_verts socket) - z_min (world_verts socket)
               = z_max (world_verts peg) - z_min (world_verts peg) + CLEARANCE)"
proof -
  from peg_extent[OF assms, of i x y] obtain raw_peg peg where
    p: "factory MAX_KEY_RADIUS PEG_LENGTH = Inr raw_peg"
       "build_key factory True i shape x y = Inr peg" "overts peg = overts raw_peg"
       "z_min (world_verts peg) = - (PEG_LENGTH - OVERLAP)" "z_max (world_verts peg) = OVERLAP"
    by blast
  from socket_extent[OF assms, of i x y] obtain raw_socket socket where
    s: "factory (MAX_KEY_RADIUS + CLEARANCE) (PEG_LENGTH + CLEARANCE) = Inr raw_socket"
       "build_key factory False i shape x y = Inr socket" "overts socket = overts raw_socket"
       "z_min (world_verts socket) = - OVERLAP"
       "z_max (world_verts socket) = (PEG_LENGTH + CLEARANCE) - OVERLAP"
    by blast
  have h: "z_max (world_verts socket) - z_min (world_verts socket)
               = z_max (world_verts peg) - z_min (world_verts peg) + CLEARANCE"
    by (simp add: p(4,5) s(4,5))
  have k: "key_params True = (MAX_KEY_RADIUS, PEG_LENGTH)"
    "key_params False = (fst (key_params True) + CLEARANCE, snd (key_params True) + CLEARANCE)"
    by (simp_all add: key_params_def)
  have "\<exists>raw_peg raw_socket peg socket.
             factory MAX_KEY_RADIUS PEG_LENGTH = Inr raw_peg
           \<and> factory (MAX_KEY_RADIUS + CLEARANCE) (PEG_LENGTH + CLEARANCE) = Inr raw_socket
           \<and> build_key factory True i shape x y = Inr peg
           \<and> build_key factory False i shape x y = Inr socket
           \<and> overts peg = overts raw_peg \<and> overts socket = overts raw_socket
           \<and> z_max (world_verts socket) - z_min (world_verts socket)
               = z_max (world_verts peg) - z_min (world_verts peg) + CLEARANCE"
    using p(1,2,3) s(1,2,3) h by (intro exI conjI)
  with k show ?thesis by (intro conjI)
qed

theorem clearance_sizing_witness:
  "SHAPE_FACTORIES ''hexagon'' = Some hexagon
   \<and> key_params True = (6, 20) \<and> key_params False = (13 / 2, 41 / 2)
   \<and> (\<exists>peg socket. build_key hexagon True 4 ''hexagon'' 1 2 = Inr peg
         \<and> build_key hexagon False 4 ''hexagon'' 1 2 = Inr socket
         \<and> z_max (world_verts socket) - z_min (world_verts socket)
               = z_max (world_verts peg) - z_min (world_verts peg) + 1 / 2)"
proof -
  have k: "key_params True = (6, 20)" "key_params False = (13 / 2, 41 / 2)"
    by (simp_all add: key_params_def config_defs)
  from clearance_sizing[OF hexagon_factory, of 4 1 2, THEN conjunct2, THEN conjunct2]
  obtain peg socket where "build_key hexagon True 4 ''hexagon'' 1 2 = Inr peg"
    "build_key hexagon False 4 ''hexagon'' 1 2 = Inr socket"
    "z_max (world_verts socket) - z_min (world_verts socket)
               = z_max (world_verts peg) - z_min (world_verts peg) + 1 / 2"
    unfolding CLEARANCE_def by blast
  with hexagon_factory k show ?thesis by blast
qed

text \<open>
  C5: for every key specification, the peg tool of height \<open>h = PEG_LENGTH\<close> is placed at
  \<open>(x, y, - (h / 2 - OVERLAP))\<close> and covers the z-range from \<open>- (h - OVERLAP)\<close> to
  \<open>OVERLAP\<close>; the socket tool of height \<open>h' = PEG_LENGTH + CLEARANCE\<close> is placed at
  \<open>(x, y, h' / 2 - OVERLAP)\<close> and covers the z-range from \<open>- OVERLAP\<close> to
  \<open>h' - OVERLAP\<close>.
\<close>

theorem key_tool_extent:
  assumes "SHAPE_FACTORIES shape = Some factory"
  shows "\<exists>peg socket.
           build_key factory True i shape x y = Inr peg
         \<and> olocation peg = (x, y, - (PEG_LENGTH / 2 - OVERLAP))
         \<and> z_min (world_verts peg) = - (PEG_LENGTH - OVERLAP)
         \<and> z_max (world_verts peg) = OVERLAP
         \<and> build_key factory False i shape x y = Inr socket
         \<and> olocation socket = (x, y, (PEG_LENGTH + CLEARANCE) / 2 - OVERLAP)
         \<and> z_min (world_verts socket) = - OVERLAP
         \<and> z_max (world_verts socket) = (PEG_LENGTH + CLEARANCE) - OVERLAP"
  using peg_extent[OF assms, of i x y] socket_extent[OF assms, of i x y] by blast

theorem key_tool_extent_witness:
  "SHAPE_FACTORIES ''square'' = Some square_prism
   \<and> (\<exists>peg socket.
           build_key square_prism True 3 ''square'' 1 2 = Inr peg
         \<and> olocation peg = (1, 2, 1)
         \<and> z_min (world_verts peg) = - 9 \<and> z_max (world_verts peg) = 11
         \<and> build_key square_prism False 3 ''square'' 1 2 = Inr socket
         \<and> olocation socket = (1, 2, - (3 / 4))
         \<and> z_min (world_verts socket) = - 11 \<and> z_max (world_verts socket) = 19 / 2)"
proof -
  from key_tool_extent[OF square_factory, of 3 1 2]
  obtain peg socket where k:
    "build_key square_prism True 3 ''square'' 1 2 = Inr peg"
    "olocation peg = (1, 2, - (PEG_LENGTH / 2 - OVERLAP))"
    "z_min (world_verts peg) = - (PEG_LENGTH - OVERLAP)"
    "z_max (world_verts peg) = OVERLAP"
    "build_key square_prism False 3 ''square'' 1 2 = Inr socket"
    "olocation socket = (1, 2, (PEG_LENGTH + CLEARANCE) / 2 - OVERLAP)"
    "z_min (world_verts socket) = - OVERLAP"
    "z_max (world_verts socket) = (PEG_LENGTH + CLEARANCE) - OVERLAP"
    by blast
  have "olocation peg = (1, 2, 1)" "z_min (world_verts peg) = - 9" "z_max (world_verts peg) = 11"
    "olocation socket = (1, 2, - (3 / 4))" "z_min (world_verts socket) = - 11"
    "z_max (world_verts socket) = 19 / 2"
    by (simp_all add: k config_defs)
  with k(1,5) square_factory show ?thesis by blast
qed

section \<open>Properties of the surface noise\<close>

lemma displace_verts_nth:
  assumes "distinct order" and "set order \<subseteq> {..<length vs}"
  shows "length (displace_verts nz order vs) = length vs
       \<and> (\<forall>i<length vs. displace_verts nz order vs ! i
              = (if i \<in> set order then displace nz (vs ! i) else vs ! i))"
  using assms
proof (induction order arbitrary: vs)
  case Nil
  then show ?case by (simp add: displace_verts_def)
next
  case (Cons a order)
  let ?vs = "displace_at nz a vs"
  have len: "length ?vs = length vs" by (simp add: displace_at_def)
  have d: "distinct order" and sub: "set order \<subseteq> {..<length ?vs}" and a: "a \<notin> set order"
    and al: "a < length vs"
    using Cons.prems by (simp_all add: len)
  have step: "displace_verts nz (a # order) vs = displace_verts nz order ?vs"
    by (simp add: displace_verts_def)
  from Cons.IH[OF d sub] have
    IH: "length (displace_verts nz order ?vs) = length vs"
        "\<And>i. i < length vs \<Longrightarrow> displace_verts nz order ?vs ! i
              = (if i \<in> set order then displace nz (?vs ! i) else ?vs ! i)"
    by (simp_all add: len)
  have "displace_verts nz (a # order) vs ! i
              = (if i \<in> set (a # order) then displace nz (vs ! i) else vs ! i)"
    if "i < length vs" for i
  proof (cases "i = a")
    case True
    then show ?thesis using a al IH(2)[of a] by (simp add: step displace_at_def)
  next
    case False
    then show ?thesis using that IH(2)[of i] by (simp add: step displace_at_def)
  qed
  then show ?case by (simp add: step IH(1))
qed

lemma displace_verts_any_order:
  assumes "distinct order" and "set order = {..<length vs}"
  shows "displace_verts nz order vs = map (displace nz) vs"
proof (rule nth_equalityI)
  have sub: "set order \<subseteq> {..<length vs}" using assms(2) by simp
  show "length (displace_verts nz order vs) = length (map (displace nz) vs)"
    using displace_verts_nth[OF assms(1) sub] by simp
  fix i assume "i < length (displace_verts nz order vs)"
  then have i: "i < length vs" using displace_verts_nth[OF assms(1) sub, of nz] by simp
  then show "displace_verts nz order vs ! i = map (displace nz) vs ! i"
    using displace_verts_nth[OF assms(1) sub, of nz] assms(2) by simp
qed

lemma make_solid_hemisphere_rng: "rng (snd (make_solid_hemisphere env is_top w)) = rng w"
  by (simp add: make_solid_hemisphere_def log_message_def Let_def split: prod.splits if_splits)

text \<open>
  C8: every vertex \<open>v\<close> of the sphere is moved to
  \<open>v + normalize(v) * noise(v * F) * A\<close>, with \<open>F = noise_scale\<close> and \<open>A = noise_strength\<close>.
  The new position of a vertex depends on its own old position only: visiting the vertices
  in any order gives the same mesh as the program's order, and building a hemisphere draws
  nothing from the random number generator.
\<close>

theorem noise_displacement:
  "displace nz v = vadd v (vscale (vscale (normalized v) (nz (vscale v noise_scale))) noise_strength)
   \<and> make_noisy_sphere env
       = map (displace (noise env)) (primitive_uv_sphere_add env segments ring_count OUTER_R)
   \<and> (distinct order \<and> set order = {..<length vs}
        \<longrightarrow> displace_verts nz order vs = map (displace nz) vs)
   \<and> rng (snd (make_solid_hemisphere env is_top w)) = rng w"
proof -
  have a: "displace nz v = vadd v (vscale (vscale (normalized v) (nz (vscale v noise_scale))) noise_strength)"
    by (simp add: displace_def)
  have b: "make_noisy_sphere env
       = map (displace (noise env)) (primitive_uv_sphere_add env segments ring_count OUTER_R)"
    unfolding make_noisy_sphere_def Let_def
    by (rule displace_verts_any_order) auto
  have c: "distinct order \<and> set order = {..<length vs}
        \<longrightarrow> displace_verts nz order vs = map (displace nz) vs"
    using displace_verts_any_order by blast
  show ?thesis using a b c make_solid_hemisphere_rng by blast
qed

theorem noise_displacement_witness:
  "distinct [1, 0 :: nat] \<and> set [1, 0 :: nat] = {..<length [(3 :: real, 0 :: real, 4 :: real), (0, 0, 0)]}
   \<and> displace_verts (\<lambda>p. 1) [1, 0] [(3, 0, 4), (0, 0, 0)]
      = map (displace (\<lambda>p. 1)) [(3, 0, 4), (0, 0, 0)]
   \<and> map (displace (\<lambda>p. 1)) [(3, 0, 4), (0, 0, 0)] = [(42 / 5, 0, 56 / 5), (0, 0, 0)]"
proof -
  have h: "distinct [1, 0 :: nat] \<and> set [1, 0 :: nat] = {..<length [(3 :: real, 0 :: real, 4 :: real), (0, 0, 0)]}"
    by (auto simp: lessThan_def)
  have l: "vlength (3, 0, 4) = 5"
    using real_sqrt_abs[of 5] by (simp add: vlength_def vx_def vy_def vz_def)
  have e: "map (displace (\<lambda>p. 1)) [(3, 0, 4), (0, 0, 0)] = [(42 / 5, 0, 56 / 5), (0, 0, 0)]"
    by (simp add: displace_def normalized_def l vadd_def vscale_def vx_def vy_def vz_def config_defs)
  from noise_displacement[of "\<lambda>p. 1" _ _ "[1, 0]" "[(3, 0, 4), (0, 0, 0)]"] h e
  show ?thesis by blast
qed

section \<open>Properties of merging the keys\<close>

lemma boolean_fail:
  assumes "modifier_apply env (hmesh target) tool op_type = None"
  shows "boolean env target tool op_type w =
           (target \<lparr> hmodifiers := hmodifiers target @ [op_type] \<rparr>,
            w \<lparr> log := log w @ [ApplyingBoolean op_type (oname tool), BooleanError] \<rparr>)"
  using assms by (simp add: boolean_def log_message_def Let_def)

lemma boolean_ok:
  assumes "modifier_apply env (hmesh target) tool op_type = Some m"
  shows "boolean env target tool op_type w =
           (target \<lparr> hmesh := m \<rparr>,
            w \<lparr> log := log w @ [ApplyingBoolean op_type (oname tool), BooleanApplied] \<rparr>)"
  using assms by (simp add: boolean_def log_message_def Let_def)

lemma boolean_effect:
  "\<exists>hem' e. boolean env target tool op_type w =
       (hem', w \<lparr> log := log w @ [ApplyingBoolean op_type (oname tool), e] \<rparr>)
     \<and> (e = BooleanApplied \<or> e = BooleanError)
     \<and> hmesh hem' = (case modifier_apply env (hmesh target) tool op_type of
                        None \<Rightarrow> hmesh target | Some m \<Rightarrow> m)"
proof (cases "modifier_apply env (hmesh target) tool op_type")
  case None
  then show ?thesis
    by (intro exI[of _ "target \<lparr> hmodifiers := hmodifiers target @ [op_type] \<rparr>"]
              exI[of _ BooleanError]) (simp add: boolean_fail)
next
  case (Some m)
  then show ?thesis
    by (intro exI[of _ "target \<lparr> hmesh := m \<rparr>"] exI[of _ BooleanApplied]) (simp add: boolean_ok)
qed

lemma build_key_ok:
  assumes "SHAPE_FACTORIES shape = Some f"
  shows "\<exists>key. build_key f is_top i shape x y = Inr key
           \<and> vx (olocation key) = x \<and> vy (olocation key) = y"
proof (cases is_top)
  case True
  from peg_extent[OF assms, of i x y] True show ?thesis
    by (auto simp: vx_def vy_def)
next
  case False
  from socket_extent[OF assms, of i x y] False show ?thesis
    by (auto simp: vx_def vy_def)
qed

lemma add_keys_loop_run:
  assumes "set (map fst specs) \<subseteq> dom SHAPE_FACTORIES"
  shows "\<exists>hem' L. add_keys_loop env is_top i specs hem w = Inr (hem', w \<lparr> log := log w @ L \<rparr>)
           \<and> keys_logged L = specs
           \<and> (\<forall>e\<in>set L. \<not> is_header e)
           \<and> length (filter is_attempt L) = length specs
           \<and> hmesh hem' = merge_skipping_failures (modifier_apply env)
                 (if is_top then UNION else DIFFERENCE) (key_tools is_top i specs) (hmesh hem)"
  using assms
proof (induction specs arbitrary: i hem w)
  case Nil
  have "add_keys_loop env is_top i [] hem w = Inr (hem, w \<lparr> log := log w @ [] \<rparr>)" by simp
  then show ?case
    by (intro exI[of _ hem] exI[of _ "[]"])
       (simp add: keys_logged_def List.map_filter_simps merge_skipping_failures_def)
next
  case (Cons spec rest)
  obtain shape x y where spec: "spec = (shape, x, y)" by (cases spec) auto
  let ?op = "if is_top then UNION else DIFFERENCE"
  from Cons.prems spec obtain f where f: "SHAPE_FACTORIES shape = Some f" by auto
  from build_key_ok[OF f, of is_top i x y] obtain key where
    key: "build_key f is_top i shape x y = Inr key" by blast
  let ?w1 = "log_message (KeyMsg i shape x y) w"
  from boolean_effect[of env hem key ?op ?w1] obtain hem1 e where
    b: "boolean env hem key ?op ?w1 =
          (hem1, ?w1 \<lparr> log := log ?w1 @ [ApplyingBoolean ?op (oname key), e] \<rparr>)"
    and e: "e = BooleanApplied \<or> e = BooleanError"
    and m1: "hmesh hem1 = (case modifier_apply env (hmesh hem) key ?op of
                        None \<Rightarrow> hmesh hem | Some m \<Rightarrow> m)"
    by blast
  let ?w2 = "?w1 \<lparr> log := log ?w1 @ [ApplyingBoolean ?op (oname key), e] \<rparr>"
  have rest: "set (map fst rest) \<subseteq> dom SHAPE_FACTORIES" using Cons.prems by simp
  from Cons.IH[OF rest, of "i + 1" hem1 ?w2] obtain hem' L where
    IH: "add_keys_loop env is_top (i + 1) rest hem1 ?w2 = Inr (hem', ?w2 \<lparr> log := log ?w2 @ L \<rparr>)"
        "keys_logged L = rest" "\<forall>e\<in>set L. \<not> is_header e"
        "length (filter is_attempt L) = length rest"
        "hmesh hem' = merge_skipping_failures (modifier_apply env) ?op
                        (key_tools is_top (i + 1) rest) (hmesh hem1)"
    by blast
  let ?L = "KeyMsg i shape x y # ApplyingBoolean ?op (oname key) # e # L"
  have run: "add_keys_loop env is_top i (spec # rest) hem w = Inr (hem', w \<lparr> log := log w @ ?L \<rparr>)"
    using f key b IH(1) by (simp add: spec Let_def log_message_def)
  have kl: "keys_logged ?L = spec # rest"
    using e IH(2) by (auto simp: keys_logged_def List.map_filter_simps spec)
  have nh: "\<forall>e\<in>set ?L. \<not> is_header e" using e IH(3) by auto
  have na: "length (filter is_attempt ?L) = length (spec # rest)" using e IH(4) by auto
  have mesh: "hmesh hem' = merge_skipping_failures (modifier_apply env) ?op
                 (key_tools is_top i (spec # rest)) (hmesh hem)"
    using f key IH(5) m1 by (simp add: spec merge_skipping_failures_def)
  show ?case using run kl nh na mesh by blast
qed

lemma add_keys_run:
  assumes "set (map fst specs) \<subseteq> dom SHAPE_FACTORIES"
  shows "\<exists>hem' L. add_keys env hem specs is_top w = Inr (hem', w \<lparr> log := log w @ L \<rparr>)
           \<and> keys_logged L = specs
           \<and> (\<forall>e\<in>set L. \<not> is_header e)"
proof -
  from add_keys_loop_run[OF assms, of env is_top 1 hem w] obtain hem1 L where
    l: "add_keys_loop env is_top 1 specs hem w = Inr (hem1, w \<lparr> log := log w @ L \<rparr>)"
       "keys_logged L = specs" "\<forall>e\<in>set L. \<not> is_header e"
    by blast
  obtain m ok where c: "mesh_cleanup env (hmesh hem1) = (m, ok)" by (cases "mesh_cleanup env (hmesh hem1)")
  let ?e = "if ok then CleanupOk else CleanupError"
  have "add_keys env hem specs is_top w
          = Inr (hem1 \<lparr> hmesh := m \<rparr>, w \<lparr> log := log w @ (L @ [CleanupStart, ?e]) \<rparr>)"
    by (simp add: add_keys_def l(1) c log_message_def Let_def del: One_nat_def)
  moreover have "keys_logged (L @ [CleanupStart, ?e]) = specs"
    using l(2) by (simp add: keys_logged_def List.map_filter_def)
  moreover have "\<forall>e\<in>set (L @ [CleanupStart, ?e]). \<not> is_header e"
    using l(3) by auto
  ultimately show ?thesis by blast
qed


lemma demo_specs_shapes: "set (map fst demo_specs) \<subseteq> dom SHAPE_FACTORIES"
  by (simp add: demo_specs_def SHAPE_FACTORIES_def)

lemma str_nat_small:
  "str_nat (Suc 0) = ''1''" "str_nat (Suc (Suc 0)) = ''2''" "str_nat (Suc (Suc (Suc 0))) = ''3''"
  by code_simp+

lemma demo_tools_merge:
  "merge_skipping_failures (modifier_apply demo_env) UNION (key_tools True (Suc 0) demo_specs) 0 = 2"
proof -
  have ne: "MAX_KEY_RADIUS \<noteq> 0" by (simp add: MAX_KEY_RADIUS_def)
  show ?thesis
    by (simp add: demo_specs_def SHAPE_FACTORIES_def build_key_def key_params_def cylinder_def
        triangular_prism_def square_prism_ok[OF ne] str_nat_small merge_skipping_failures_def
        demo_env_def)
qed

text \<open>
  C6: when the boolean evaluation for one key fails, the failure is logged and the loop
  goes on to the next key. The mesh of the base solid is as it was before that key; the
  evaluator is called exactly once for every key, so a failed key is not tried again; the
  mesh at the end is the one obtained by applying the evaluator to each tool in turn and
  skipping the tools it fails on; and \<^verbatim>\<open>add_keys\<close> returns normally whatever the
  evaluator does.
\<close>

theorem boolean_failure_skipped:
  assumes "set (map fst specs) \<subseteq> dom SHAPE_FACTORIES"
  shows "(modifier_apply env (hmesh target) tool op_type = None \<longrightarrow>
            (\<exists>hem'. boolean env target tool op_type w =
                      (hem', w \<lparr> log := log w @ [ApplyingBoolean op_type (oname tool), BooleanError] \<rparr>)
                   \<and> hmesh hem' = hmesh target))
       \<and> (\<exists>hem' L. add_keys_loop env is_top i specs hem w = Inr (hem', w \<lparr> log := log w @ L \<rparr>)
             \<and> length (filter is_attempt L) = length specs
             \<and> hmesh hem' = merge_skipping_failures (modifier_apply env)
                   (if is_top then UNION else DIFFERENCE) (key_tools is_top i specs) (hmesh hem))
       \<and> (\<exists>hem' w'. add_keys env hem specs is_top w = Inr (hem', w'))"
proof -
  have a: "modifier_apply env (hmesh target) tool op_type = None \<longrightarrow>
            (\<exists>hem'. boolean env target tool op_type w =
                      (hem', w \<lparr> log := log w @ [ApplyingBoolean op_type (oname tool), BooleanError] \<rparr>)
                   \<and> hmesh hem' = hmesh target)"
    by (simp add: boolean_fail)
  have b: "\<exists>hem' L. add_keys_loop env is_top i specs hem w = Inr (hem', w \<lparr> log := log w @ L \<rparr>)
             \<and> length (filter is_attempt L) = length specs
             \<and> hmesh hem' = merge_skipping_failures (modifier_apply env)
                   (if is_top then UNION else DIFFERENCE) (key_tools is_top i specs) (hmesh hem)"
    using add_keys_loop_run[OF assms, of env is_top i hem w] by blast
  have c: "\<exists>hem' w'. add_keys env hem specs is_top w = Inr (hem', w')"
    using add_keys_run[OF assms, of env hem is_top w] by blast
  show ?thesis by (rule conjI[OF a conjI[OF b c]])
qed

theorem boolean_failure_skipped_witness:
  "set (map fst demo_specs) \<subseteq> dom SHAPE_FACTORIES
   \<and> (\<exists>hem' L. add_keys_loop demo_env True 1 demo_specs \<lparr> hmesh = 0, hmodifiers = [] \<rparr> demo_world
                  = Inr (hem', demo_world \<lparr> log := log demo_world @ L \<rparr>)
         \<and> length (filter is_attempt L) = length demo_specs
         \<and> hmesh hem' = 2)"
proof -
  from boolean_failure_skipped[OF demo_specs_shapes, THEN conjunct2, THEN conjunct1,
      of demo_env True 1 "\<lparr> hmesh = 0, hmodifiers = [] \<rparr>" demo_world]
  obtain hem' L where
    r: "add_keys_loop demo_env True 1 demo_specs \<lparr> hmesh = 0, hmodifiers = [] \<rparr> demo_world
          = Inr (hem', demo_world \<lparr> log := log demo_world @ L \<rparr>)"
       "length (filter is_attempt L) = length demo_specs"
       "hmesh hem' = merge_skipping_failures (modifier_apply demo_env)
                   (if True then UNION else DIFFERENCE) (key_tools True 1 demo_specs)
                   (hmesh \<lparr> hmesh = 0::nat, hmodifiers = [] \<rparr>)"
    by blast
  from r(3) have "hmesh hem' = 2" by (simp add: demo_tools_merge)
  with r(1,2) demo_specs_shapes show ?thesis by blast
qed

section \<open>Properties of the main loop\<close>


















end
